theory Spec2Isabelle
  imports Complex_Main "HOL-Library.Multiset" "HOL-Library.AList"
begin

section \<open>Values of the running program\<close>

text \<open>
  The service speaks JSON over netstrings; every request, chunk description and progress
  message is whatever \<open>json.loads\<close> returned. A decoded object is an association list
  in insertion order; a lookup takes the first binding of a key.
\<close>

datatype json =
    JNull
  | JBool bool
  | JNum real
  | JStr string
  | JArr "json list"
  | JObj "(string \<times> json) list"

text \<open>The exceptions that the modelled code can meet. \<open>Fault\<close> stands for any failure of
  an outside service that the code has no handler for.\<close>

datatype exn =
    KeyError
  | TypeError
  | AttributeError
  | ValueError
  | AssertionError
  | BrokenPipeError
  | Fault string

type_synonym msg = "(string \<times> json) list"

text \<open>Python's truth test (\<open>if not oql\<close>, \<open>while to_send\<close>).\<close>

fun truthy :: "json \<Rightarrow> bool" where
  "truthy JNull = False"
| "truthy (JBool b) = b"
| "truthy (JNum r) = (r \<noteq> 0)"
| "truthy (JStr s) = (s \<noteq> [])"
| "truthy (JArr xs) = (xs \<noteq> [])"
| "truthy (JObj kvs) = (kvs \<noteq> [])"

text \<open>\<open>d.get(k)\<close>: only a dict has the method; a missing key gives \<open>None\<close>.\<close>

fun dict_get :: "json \<Rightarrow> string \<Rightarrow> exn + json" where
  "dict_get (JObj kvs) k = (case map_of kvs k of None \<Rightarrow> Inr JNull | Some v \<Rightarrow> Inr v)"
| "dict_get _ k = Inl AttributeError"

text \<open>\<open>d[k]\<close> with a string key: a dict raises KeyError on a missing key, every other
  JSON value raises TypeError.\<close>

fun subscript :: "json \<Rightarrow> string \<Rightarrow> exn + json" where
  "subscript (JObj kvs) k = (case map_of kvs k of None \<Rightarrow> Inl KeyError | Some v \<Rightarrow> Inr v)"
| "subscript _ k = Inl TypeError"

text \<open>What a \<open>for\<close> loop iterates over: the elements of a list, the keys of a dict, the
  characters of a string; anything else is not iterable.\<close>

fun iter_items :: "json \<Rightarrow> exn + json list" where
  "iter_items (JArr xs) = Inr xs"
| "iter_items (JObj kvs) = Inr (map (\<lambda>kv. JStr (fst kv)) kvs)"
| "iter_items (JStr s) = Inr (map (\<lambda>c. JStr [c]) s)"
| "iter_items _ = Inl TypeError"

text \<open>\<open>msg['type'] = t\<close> on a dict: an existing key keeps its place, a new one goes last.\<close>

definition set_type :: "string \<Rightarrow> msg \<Rightarrow> msg" where
  "set_type t m = AList.update ''type'' (JStr t) m"

definition msg_type :: "msg \<Rightarrow> json option" where
  "msg_type m = map_of m ''type''"

section \<open>The shared state\<close>

text \<open>
  An item of the task queue is the dict built by \<open>new_place_request\<close>. Its \<open>queue\<close> is the
  identity of the \<open>Queue\<close> object shared by the worker and one connection handler; the
  queues themselves live in the store \<open>chans\<close>. A queue holds messages and the sentinel
  \<open>None\<close>.

  A message is recorded in a queue with the value it has when it is put. The worker puts
  the same dict twice on the fetch path (as \<open>run_query\<close>, then as \<open>chunk\<close>), giving way to
  the handlers at the upstream call in between.
\<close>

record job =
  place :: json
  address :: "string \<times> nat"
  chunks :: json
  queue :: nat

type_synonym entry = "real \<times> job"

record world =
  task_queue :: "entry list"
  chans :: "nat \<Rightarrow> msg option list"
  next_chan :: nat
  files :: "string \<Rightarrow> string option"
  mails :: "(string \<times> string) list"
  sleeps :: "real list"
  status_calls :: nat
  fetches :: "json list"
  space_checks :: nat

text \<open>
  Modelled from the spec: \<open>matcher.overpass\<close>, \<open>matcher.mail\<close> and \<open>matcher.space_alert\<close> are
  not among the sources. The spec (4.3, 6) gives their interfaces. The upstream service is
  a parameter: the outcome of the n-th status call (the slots, a failure carrying the
  request target and the response body, or a timeout) and of the n-th fetch (the bytes,
  or an exception). An alert is a subject and a body, recorded in \<open>mails\<close>; the storage
  guard is called and not asked for a result, and its calls are counted in
  \<open>space_checks\<close>. The sleeps of the worker are recorded in \<open>sleeps\<close>, the queries passed
  to the fetch in \<open>fetches\<close>, and \<open>files\<close> is the cache directory.
\<close>

datatype status_result =
    Slots "real list"
  | OverpassError string string
  | Timeout

record upstream =
  get_status :: "nat \<Rightarrow> status_result"
  run_query :: "nat \<Rightarrow> json \<Rightarrow> exn + string"

definition chan_put :: "nat \<Rightarrow> msg option \<Rightarrow> world \<Rightarrow> world" where
  "chan_put q x w = w\<lparr>chans := (chans w)(q := chans w q @ [x])\<rparr>"

definition send_mail :: "string \<Rightarrow> string \<Rightarrow> world \<Rightarrow> world" where
  "send_mail subject body w = w\<lparr>mails := mails w @ [(subject, body)]\<rparr>"

definition sleep :: "real \<Rightarrow> world \<Rightarrow> world" where
  "sleep secs w = w\<lparr>sleeps := sleeps w @ [secs]\<rparr>"

definition check_free_space :: "world \<Rightarrow> world" where
  "check_free_space w = w\<lparr>space_checks := Suc (space_checks w)\<rparr>"

section \<open>The worker (task\_queue.py, lines 35 to 100)\<close>

definition to_client :: "nat \<Rightarrow> string \<Rightarrow> msg \<Rightarrow> world \<Rightarrow> world" where
  "to_client send_queue t m w = chan_put send_queue (Some (set_type t m)) w"

definition error_msg :: msg where
  "error_msg = [(''type'', JStr ''error''), (''error'', JStr ''Can't access overpass API'')]"

definition status_msg :: "real \<Rightarrow> msg" where
  "status_msg secs = [(''type'', JStr ''status''), (''wait'', JNum secs)]"

definition nl :: string where
  "nl = [CHR 0x0A]"

definition wait_for_slot :: "upstream \<Rightarrow> nat \<Rightarrow> world \<Rightarrow> bool \<times> world" where
  "wait_for_slot up send_queue w =
     (let w1 = w\<lparr>status_calls := Suc (status_calls w)\<rparr> in
      case get_status up (status_calls w) of
        OverpassError url txt \<Rightarrow>
          (False,
           chan_put send_queue (Some error_msg)
             (send_mail ''Overpass API unavailable''
                (''URL: '' @ url @ nl @ nl @ ''response:'' @ nl @ txt) w1))
      | Timeout \<Rightarrow>
          (False,
           chan_put send_queue (Some error_msg)
             (send_mail ''Overpass API timeout'' ''Timeout talking to overpass API'' w1))
      | Slots slots \<Rightarrow>
          (case slots of
             [] \<Rightarrow> (True, w1)
           | secs # _ \<Rightarrow>
               if secs \<le> 0 then (True, w1)
               else (True, sleep secs (chan_put send_queue (Some (status_msg secs)) w1))))"

text \<open>How one pass through the body of the \<open>for\<close> loop ends: the loop goes on, the
  function returns, or an exception leaves it.\<close>

datatype flow = Next | Return | Raise exn

definition progress_msg :: "nat \<Rightarrow> json \<Rightarrow> json \<Rightarrow> msg" where
  "progress_msg num fname pl = [(''num'', JNum (real num)), (''filename'', fname), (''place'', pl)]"

definition fetch_chunk :: "upstream \<Rightarrow> nat \<Rightarrow> msg \<Rightarrow> json \<Rightarrow> string \<Rightarrow> world \<Rightarrow> flow \<times> world" where
  "fetch_chunk up send_queue m oql filename w =
     (case wait_for_slot up send_queue (check_free_space w) of
        (False, w2) \<Rightarrow> (Return, w2)
      | (True, w2) \<Rightarrow>
          (let w3 = to_client send_queue ''run_query'' m w2;
               w4 = w3\<lparr>fetches := fetches w3 @ [oql]\<rparr>
           in case run_query up (length (fetches w3)) oql of
                Inl e \<Rightarrow> (Raise e, w4)
              | Inr content \<Rightarrow>
                  (Next,
                   to_client send_queue ''chunk'' m
                     (check_free_space (w4\<lparr>files := (files w4)(filename \<mapsto> content)\<rparr>)))))"

definition process_chunk :: "upstream \<Rightarrow> nat \<Rightarrow> json \<Rightarrow> nat \<Rightarrow> json \<Rightarrow> world \<Rightarrow> flow \<times> world" where
  "process_chunk up send_queue pl num chunk w =
     (case dict_get chunk ''oql'' of
        Inl e \<Rightarrow> (Raise e, w)
      | Inr oql \<Rightarrow>
          if \<not> truthy oql then (Next, w)
          else
            (case subscript chunk ''filename'' of
               Inl e \<Rightarrow> (Raise e, w)
             | Inr (JStr name) \<Rightarrow>
                 (let filename = ''overpass/'' @ name;
                      m = progress_msg num (JStr name) pl
                  in if files w filename = None
                     then fetch_chunk up send_queue m oql filename w
                     else (Next, to_client send_queue ''chunk'' m w))
             | Inr _ \<Rightarrow> (Raise TypeError, w)))"

fun chunk_loop :: "upstream \<Rightarrow> nat \<Rightarrow> json \<Rightarrow> nat \<Rightarrow> json list \<Rightarrow> world \<Rightarrow> flow \<times> world" where
  "chunk_loop up send_queue pl num [] w = (Next, w)"
| "chunk_loop up send_queue pl num (chunk # rest) w =
     (case process_chunk up send_queue pl num chunk w of
        (Next, w') \<Rightarrow> chunk_loop up send_queue pl (Suc num) rest w'
      | (Return, w') \<Rightarrow> (Return, w')
      | (Raise e, w') \<Rightarrow> (Raise e, w'))"

section \<open>The task queue\<close>

text \<open>
  \<open>task_queue\<close> is gevent's \<open>PriorityQueue\<close>: a Python list kept as a binary heap by
  \<open>heapq.heappush\<close> and \<open>heapq.heappop\<close>, which compare entries with \<open><\<close>. An entry
  is the tuple \<open>(area, item)\<close>. Tuples compare by their first differing component: two
  entries of different area compare by area; two entries of the same area compare their
  items, which are dicts, and \<open><\<close> on two dicts raises TypeError. (An entry is equal to
  itself, and then \<open><\<close> is false.)
\<close>

definition entry_lt :: "entry \<Rightarrow> entry \<Rightarrow> exn + bool" where
  "entry_lt a b =
     (if fst a \<noteq> fst b then Inr (fst a < fst b)
      else if snd a = snd b then Inr False
      else Inl TypeError)"

text \<open>
  \<open>heapq._siftdown\<close>: the new item climbs towards \<open>startpos\<close> while it is smaller than
  its parent. The list is changed in place, so a comparison that raises leaves the list
  as it is at that moment. All positions used are inside the list (\<open>heappush\<close> starts at
  the last position, \<open>_siftup\<close> at a leaf).
\<close>

function siftdown_loop :: "entry \<Rightarrow> entry list \<Rightarrow> nat \<Rightarrow> nat \<Rightarrow> exn option \<times> entry list" where
  "siftdown_loop newitem heap startpos pos =
     (if startpos < pos then
        (case entry_lt newitem (heap ! ((pos - 1) div 2)) of
           Inl e \<Rightarrow> (Some e, heap)
         | Inr True \<Rightarrow>
             siftdown_loop newitem (heap[pos := heap ! ((pos - 1) div 2)]) startpos ((pos - 1) div 2)
         | Inr False \<Rightarrow> (None, heap[pos := newitem]))
      else (None, heap[pos := newitem]))"
  by pat_completeness auto
termination
  by (relation "measure (\<lambda>(newitem, heap, startpos, pos). pos)") auto

declare siftdown_loop.simps [simp del]

definition siftdown :: "entry list \<Rightarrow> nat \<Rightarrow> nat \<Rightarrow> exn option \<times> entry list" where
  "siftdown heap startpos pos = siftdown_loop (heap ! pos) heap startpos pos"

text \<open>
  \<open>heapq._siftup\<close>: the smaller child moves up into the hole until the hole is a leaf;
  the item taken out at \<open>pos\<close> is put there and climbs back with \<open>_siftdown\<close>.
\<close>

function siftup_loop :: "entry list \<Rightarrow> nat \<Rightarrow> exn option \<times> entry list \<times> nat" where
  "siftup_loop heap pos =
     (if 2 * pos + 1 < length heap then
        (case (if 2 * pos + 2 < length heap
               then entry_lt (heap ! (2 * pos + 1)) (heap ! (2 * pos + 2))
               else Inr True) of
           Inl e \<Rightarrow> (Some e, heap, pos)
         | Inr True \<Rightarrow> siftup_loop (heap[pos := heap ! (2 * pos + 1)]) (2 * pos + 1)
         | Inr False \<Rightarrow> siftup_loop (heap[pos := heap ! (2 * pos + 2)]) (2 * pos + 2))
      else (None, heap, pos))"
  by pat_completeness auto
termination
  by (relation "measure (\<lambda>(heap, pos). length heap - pos)") (auto split: if_splits)

declare siftup_loop.simps [simp del]

definition siftup :: "entry list \<Rightarrow> nat \<Rightarrow> exn option \<times> entry list" where
  "siftup heap pos =
     (let newitem = heap ! pos in
      case siftup_loop heap pos of
        (Some e, heap', p) \<Rightarrow> (Some e, heap')
      | (None, heap', p) \<Rightarrow> siftdown (heap'[p := newitem]) pos p)"

definition heappush :: "entry list \<Rightarrow> entry \<Rightarrow> exn option \<times> entry list" where
  "heappush heap item = siftdown (heap @ [item]) 0 (length heap)"

text \<open>\<open>heappop\<close> of a list that is not empty (the queue's \<open>get\<close> waits while it is).
  When a comparison raises, the item that was at the root is returned to nobody.\<close>

definition heappop :: "entry list \<Rightarrow> exn \<times> entry list + entry \<times> entry list" where
  "heappop heap =
     (let lastelt = last heap; heap1 = butlast heap in
      if heap1 \<noteq> [] then
        (case siftup (heap1[0 := lastelt]) 0 of
           (Some e, heap2) \<Rightarrow> Inl (e, heap2)
         | (None, heap2) \<Rightarrow> Inr (heap1 ! 0, heap2))
      else Inr (lastelt, heap1))"

section \<open>One job, and the worker's loop (task\_queue.py, lines 67 to 100)\<close>

text \<open>How a call ends: it returns, an exception leaves it, or it waits for ever (on an
  empty queue, or on a client that sends nothing).\<close>

datatype outcome = Returned | Raised exn | Blocked

text \<open>Lines 74 to 100: the job taken from the queue is run through its chunks.\<close>

definition process_item :: "upstream \<Rightarrow> job \<Rightarrow> world \<Rightarrow> outcome \<times> world" where
  "process_item up item w =
     (case iter_items (chunks item) of
        Inl e \<Rightarrow> (Raised e, w)
      | Inr cs \<Rightarrow>
          (case chunk_loop up (queue item) (place item) 0 cs w of
             (Next, w2) \<Rightarrow> (Returned, chan_put (queue item) None w2)
           | (Return, w2) \<Rightarrow> (Returned, w2)
           | (Raise e, w2) \<Rightarrow> (Raised e, w2)))"

definition process_queue :: "upstream \<Rightarrow> world \<Rightarrow> outcome \<times> world" where
  "process_queue up w =
     (if task_queue w = [] then (Blocked, w)
      else
        (case heappop (task_queue w) of
           Inl (e, heap) \<Rightarrow> (Raised e, w\<lparr>task_queue := heap\<rparr>)
         | Inr ((area, item), heap) \<Rightarrow> process_item up item (w\<lparr>task_queue := heap\<rparr>)))"

subsection \<open>What a job leaves alone\<close>

lemma length_siftdown_loop:
  "length (snd (siftdown_loop newitem heap startpos pos)) = length heap"
proof (induction newitem heap startpos pos rule: siftdown_loop.induct)
  case (1 newitem heap startpos pos)
  show ?case
    by (subst siftdown_loop.simps) (use 1 in \<open>auto split: sum.splits bool.splits\<close>)
qed

lemma length_siftup_loop:
  "length (fst (snd (siftup_loop heap pos))) = length heap"
proof (induction heap pos rule: siftup_loop.induct)
  case (1 heap pos)
  show ?case
    by (subst siftup_loop.simps) (use 1 in \<open>auto split: sum.splits bool.splits\<close>)
qed

lemma length_siftup: "length (snd (siftup heap pos)) = length heap"
proof (cases "siftup_loop heap pos")
  case (fields e h p)
  have "length h = length heap"
    using length_siftup_loop [of heap pos] fields by simp
  then show ?thesis
    by (cases e) (simp_all add: siftup_def siftdown_def fields Let_def length_siftdown_loop)
qed

lemma length_heappush: "length (snd (heappush heap item)) = Suc (length heap)"
  by (simp add: heappush_def siftdown_def length_siftdown_loop)

lemma length_heappop:
  assumes "heap \<noteq> []"
  shows "heappop heap = Inr (x, heap') \<Longrightarrow> Suc (length heap') = length heap"
    and "heappop heap = Inl (e, heap') \<Longrightarrow> Suc (length heap') = length heap"
proof -
  obtain r h2 where su: "siftup ((butlast heap)[0 := last heap]) 0 = (r, h2)"
    by (cases "siftup ((butlast heap)[0 := last heap]) 0")
  have len: "length h2 = length heap - 1"
    using length_siftup [of "(butlast heap)[0 := last heap]" 0] su by simp
  have one: "butlast heap = [] \<Longrightarrow> length heap = 1"
    using assms by (cases heap) (auto split: if_splits)
  show "heappop heap = Inr (x, heap') \<Longrightarrow> Suc (length heap') = length heap"
    using assms len one
    by (cases r) (auto simp: heappop_def Let_def su split: if_splits)
  show "heappop heap = Inl (e, heap') \<Longrightarrow> Suc (length heap') = length heap"
    using assms len one
    by (cases r) (auto simp: heappop_def Let_def su split: if_splits)
qed

lemma wait_for_slot_frame:
  "task_queue (snd (wait_for_slot up q w)) = task_queue w"
  "files (snd (wait_for_slot up q w)) = files w"
  "fetches (snd (wait_for_slot up q w)) = fetches w"
  "next_chan (snd (wait_for_slot up q w)) = next_chan w"
  by (auto simp: wait_for_slot_def Let_def chan_put_def send_mail_def sleep_def
      split: status_result.splits list.splits)

lemma fetch_chunk_task_queue:
  "task_queue (snd (fetch_chunk up q m oql filename w)) = task_queue w"
proof (cases "wait_for_slot up q (check_free_space w)")
  case (Pair ok w2)
  have "task_queue w2 = task_queue (check_free_space w)"
    using wait_for_slot_frame(1) [of up q "check_free_space w"] Pair by simp
  then have "task_queue w2 = task_queue w"
    by (simp add: check_free_space_def)
  then show ?thesis
    unfolding fetch_chunk_def Pair
    by (cases ok)
      (auto simp: Let_def to_client_def chan_put_def check_free_space_def
        split: sum.splits)
qed

lemma process_chunk_task_queue:
  "task_queue (snd (process_chunk up q pl num chunk w)) = task_queue w"
  by (auto simp: process_chunk_def Let_def to_client_def chan_put_def fetch_chunk_task_queue
      split: sum.splits json.splits)

lemma chunk_loop_task_queue:
  "task_queue (snd (chunk_loop up q pl num cs w)) = task_queue w"
proof (induction cs arbitrary: num w)
  case Nil
  show ?case by simp
next
  case (Cons c cs)
  show ?case
  proof (cases "process_chunk up q pl num c w")
    case (Pair f w')
    have "task_queue w' = task_queue w"
      using process_chunk_task_queue [of up q pl num c w] Pair by simp
    then show ?thesis
      using Cons.IH [of "Suc num" w'] by (cases f) (simp_all add: Pair)
  qed
qed

lemma process_item_task_queue:
  "task_queue (snd (process_item up item w)) = task_queue w"
proof (cases "iter_items (chunks item)")
  case (Inl e)
  then show ?thesis by (simp add: process_item_def)
next
  case (Inr cs)
  obtain f w2 where run: "chunk_loop up (queue item) (place item) 0 cs w = (f, w2)"
    by (cases "chunk_loop up (queue item) (place item) 0 cs w")
  have "task_queue w2 = task_queue w"
    using chunk_loop_task_queue [of up "queue item" "place item" 0 cs w] run by simp
  then show ?thesis
    by (cases f) (simp_all add: process_item_def Inr run chan_put_def)
qed

lemma process_queue_shrinks:
  assumes "process_queue up w = (out, w')" and "out \<noteq> Blocked"
  shows "Suc (length (task_queue w')) = length (task_queue w)"
proof -
  from assms have ne: "task_queue w \<noteq> []"
    by (auto simp: process_queue_def)
  show ?thesis
  proof (cases "heappop (task_queue w)")
    case (Inl a)
    obtain e heap where a: "a = (e, heap)" by (cases a)
    have "Suc (length heap) = length (task_queue w)"
      using length_heappop(2) [OF ne] Inl a by simp
    then show ?thesis
      using assms ne Inl a by (auto simp: process_queue_def)
  next
    case (Inr b)
    obtain area item heap where b: "b = ((area, item), heap)" by (cases b) auto
    have len: "Suc (length heap) = length (task_queue w)"
      using length_heappop(1) [OF ne] Inr b by simp
    have "w' = snd (process_item up item (w\<lparr>task_queue := heap\<rparr>))"
      using assms ne Inr b by (simp add: process_queue_def)
    then have "task_queue w' = heap"
      by (simp add: process_item_task_queue)
    then show ?thesis using len by simp
  qed
qed

text \<open>
  \<open>process_queue_loop\<close> is \<open>while True: process_queue()\<close>. Each round that returns has
  taken one entry off the task queue, so the loop ends in one of two ways: it waits on
  the empty queue (the worker is alive and idle), or an exception leaves it (the worker
  is gone). It never returns.
\<close>

function process_queue_loop :: "upstream \<Rightarrow> world \<Rightarrow> outcome \<times> world" where
  "process_queue_loop up w =
     (case process_queue up w of
        (Returned, w') \<Rightarrow> process_queue_loop up w'
      | (Raised e, w') \<Rightarrow> (Raised e, w')
      | (Blocked, w') \<Rightarrow> (Blocked, w'))"
  by pat_completeness auto
termination
  by (relation "measure (\<lambda>(up, w). length (task_queue w))")
    (auto dest!: process_queue_shrinks [OF sym])

declare process_queue_loop.simps [simp del]

section \<open>The connection handler (task\_queue.py, lines 102 to 160)\<close>

text \<open>
  Modelled from the spec: the framing layer \<open>matcher.netstring\<close> is not among the sources.
  The spec (4.1, 6) gives its contract: a frame carries one structured message, and the
  client answers a frame with a token of its own. A connection is the list of frames
  written so far, the client's tokens still to be read, and whether the socket is closed.
  A read with no token left waits for ever. \<open>hangup_after = Some n\<close> is a client that is gone
  once \<open>n\<close> frames are written: the next write raises BrokenPipeError.
\<close>

record conn =
  sent :: "msg list"
  inbox :: "string list"
  closed :: bool
  hangup_after :: "nat option"

definition netstring_write :: "msg \<Rightarrow> conn \<Rightarrow> outcome \<times> conn" where
  "netstring_write m c =
     (case hangup_after c of
        None \<Rightarrow> (Returned, c\<lparr>sent := sent c @ [m]\<rparr>)
      | Some n \<Rightarrow>
          if n \<le> length (sent c) then (Raised BrokenPipeError, c)
          else (Returned, c\<lparr>sent := sent c @ [m]\<rparr>))"

definition send_msg :: "msg \<Rightarrow> bool \<Rightarrow> conn \<Rightarrow> outcome \<times> conn" where
  "send_msg m check_ack c =
     (case netstring_write m c of
        (Returned, c1) \<Rightarrow>
          if check_ack then
            (case inbox c1 of
               [] \<Rightarrow> (Blocked, c1)
             | reply # rest \<Rightarrow>
                 if reply = ''ack'' then (Returned, c1\<lparr>inbox := rest\<rparr>)
                 else (Raised AssertionError, c1\<lparr>inbox := rest\<rparr>))
          else (Returned, c1)
      | (Raised e, c1) \<Rightarrow> (Raised e, c1)
      | (Blocked, c1) \<Rightarrow> (Blocked, c1))"

definition reply_and_close :: "msg \<Rightarrow> conn \<Rightarrow> outcome \<times> conn" where
  "reply_and_close m c =
     (case send_msg m False c of
        (Returned, c1) \<Rightarrow> (Returned, c1\<lparr>closed := True\<rparr>)
      | (Raised e, c1) \<Rightarrow> (Raised e, c1)
      | (Blocked, c1) \<Rightarrow> (Blocked, c1))"

text \<open>
  \<open>float(x)\<close> on a decoded JSON value. The reading of a string as a number is Python's
  own and is a parameter \<open>pf\<close> (\<open>None\<close> where \<open>float\<close> raises ValueError). JSON numbers are
  reals here; the values \<open>NaN\<close> and \<open>Infinity\<close>, which \<open>json.loads\<close> also accepts, are left out.
\<close>

fun py_float :: "(string \<Rightarrow> real option) \<Rightarrow> json \<Rightarrow> exn + real" where
  "py_float pf (JNum r) = Inr r"
| "py_float pf (JBool b) = Inr (if b then 1 else 0)"
| "py_float pf (JStr s) = (case pf s of None \<Rightarrow> Inl ValueError | Some r \<Rightarrow> Inr r)"
| "py_float pf _ = Inl TypeError"

text \<open>Lines 120 to 123: only ValueError is caught.\<close>

definition parse_area :: "(string \<Rightarrow> real option) \<Rightarrow> json \<Rightarrow> exn + real" where
  "parse_area pf m =
     (case subscript m ''place'' of
        Inl e \<Rightarrow> Inl e
      | Inr pl \<Rightarrow>
          (case subscript pl ''area'' of
             Inl e \<Rightarrow> Inl e
           | Inr a \<Rightarrow>
               (case py_float pf a of
                  Inl ValueError \<Rightarrow> Inr 0
                | Inl e \<Rightarrow> Inl e
                | Inr area \<Rightarrow> Inr area)))"

definition connected_msg :: msg where
  "connected_msg = [(''type'', JStr ''connected'')]"

definition done_msg :: msg where
  "done_msg = [(''type'', JStr ''done'')]"

definition pong_msg :: msg where
  "pong_msg = [(''type'', JStr ''pong'')]"

definition invalid_json_msg :: msg where
  "invalid_json_msg = [(''type'', JStr ''error''), (''error'', JStr ''invalid JSON'')]"

text \<open>\<open>self.send_queue = Queue()\<close> takes the next free identity in the store.\<close>

definition new_place_request ::
  "(string \<Rightarrow> real option) \<Rightarrow> string \<times> nat \<Rightarrow> json \<Rightarrow> world \<Rightarrow> conn \<Rightarrow> outcome \<times> world \<times> conn" where
  "new_place_request pf addr m w c =
     (let send_queue = next_chan w;
          w0 = w\<lparr>next_chan := Suc send_queue\<rparr>
      in case parse_area pf m of
           Inl e \<Rightarrow> (Raised e, w0, c)
         | Inr area \<Rightarrow>
             (case subscript m ''place'' of
                Inl e \<Rightarrow> (Raised e, w0, c)
              | Inr pl \<Rightarrow>
                  (case subscript m ''chunks'' of
                     Inl e \<Rightarrow> (Raised e, w0, c)
                   | Inr cs \<Rightarrow>
                       (case heappush (task_queue w0)
                               (area, \<lparr>place = pl, address = addr, chunks = cs, queue = send_queue\<rparr>) of
                          (Some e, heap) \<Rightarrow> (Raised e, w0\<lparr>task_queue := heap\<rparr>, c)
                        | (None, heap) \<Rightarrow>
                            (case send_msg connected_msg True c of
                               (out, c1) \<Rightarrow> (out, w0\<lparr>task_queue := heap\<rparr>, c1))))))"

text \<open>
  Lines 147 to 152: the relay loop over what arrives on \<open>self.send_queue\<close>, given as the
  list of items in the order they are put. The loop ends at the first item that is not
  true (the sentinel \<open>None\<close>, or an empty dict); with no item left, \<open>get\<close> waits for ever.
  The flag is the local variable \<open>error\<close>.
\<close>

fun relay :: "msg option list \<Rightarrow> bool \<Rightarrow> conn \<Rightarrow> outcome \<times> bool \<times> conn" where
  "relay [] error c = (Blocked, error, c)"
| "relay (None # rest) error c = (Returned, error, c)"
| "relay (Some to_send # rest) error c =
     (if to_send = [] then (Returned, error, c)
      else
        (case send_msg to_send True c of
           (Returned, c1) \<Rightarrow>
             (case msg_type to_send of
                None \<Rightarrow> (Raised KeyError, error, c1)
              | Some t \<Rightarrow> relay rest (if t = JStr ''error'' then True else error) c1)
         | (Raised e, c1) \<Rightarrow> (Raised e, error, c1)
         | (Blocked, c1) \<Rightarrow> (Blocked, error, c1)))"

text \<open>
  \<open>Request.handle\<close>. \<open>first\<close> is the first frame decoded (\<open>None\<close> when \<open>json.loads\<close> raises
  JSONDecodeError), \<open>arriving\<close> the items that arrive on the connection's send queue.
  \<open>relay_and_close\<close> is lines 145 to 160: only a BrokenPipeError inside the relay loop is
  caught; the \<open>done\<close> message is sent in the \<open>else\<close> branch of the \<open>try\<close>, outside its
  handler, by \<open>send_msg\<close> with its default \<open>check_ack=True\<close>.
\<close>

definition relay_and_close :: "msg option list \<Rightarrow> conn \<Rightarrow> outcome \<times> conn" where
  "relay_and_close arriving c =
     (case relay arriving False c of
        (Raised BrokenPipeError, error, c2) \<Rightarrow> (Returned, c2\<lparr>closed := True\<rparr>)
      | (Raised e, error, c2) \<Rightarrow> (Raised e, c2)
      | (Blocked, error, c2) \<Rightarrow> (Blocked, c2)
      | (Returned, error, c2) \<Rightarrow>
          if \<not> error then
            (case send_msg done_msg True c2 of
               (Returned, c3) \<Rightarrow> (Returned, c3\<lparr>closed := True\<rparr>)
             | (Raised e, c3) \<Rightarrow> (Raised e, c3)
             | (Blocked, c3) \<Rightarrow> (Blocked, c3))
          else (Returned, c2\<lparr>closed := True\<rparr>))"

definition handle ::
  "(string \<Rightarrow> real option) \<Rightarrow> string \<times> nat \<Rightarrow> json option \<Rightarrow> msg option list \<Rightarrow> world \<Rightarrow> conn
     \<Rightarrow> outcome \<times> world \<times> conn" where
  "handle pf addr first arriving w c =
     (case first of
        None \<Rightarrow> (case reply_and_close invalid_json_msg c of (out, c1) \<Rightarrow> (out, w, c1))
      | Some m \<Rightarrow>
          (case dict_get m ''type'' of
             Inl e \<Rightarrow> (Raised e, w, c)
           | Inr t \<Rightarrow>
               if t = JStr ''ping''
               then (case reply_and_close pong_msg c of (out, c1) \<Rightarrow> (out, w, c1))
               else
                 (case new_place_request pf addr m w c of
                    (Returned, w1, c1) \<Rightarrow>
                      (case relay_and_close arriving c1 of (out, c2) \<Rightarrow> (out, w1, c2))
                  | (Raised e, w1, c1) \<Rightarrow> (Raised e, w1, c1)
                  | (Blocked, w1, c1) \<Rightarrow> (Blocked, w1, c1))))"

section \<open>Notions used to state the properties\<close>


text \<open>
  The query and the file name of a chunk as the loop reads them, the \<open>chunk\<close> message that
  reports the chunk at position \<open>num\<close>, and the reports of a list of chunks: one for each
  chunk whose query is true, in the order of the list.
\<close>

definition chunk_oql :: "json \<Rightarrow> json" where
  "chunk_oql c = (case dict_get c ''oql'' of Inr v \<Rightarrow> v | Inl e \<Rightarrow> JNull)"

definition chunk_filename :: "json \<Rightarrow> json" where
  "chunk_filename c = (case subscript c ''filename'' of Inr v \<Rightarrow> v | Inl e \<Rightarrow> JNull)"

definition chunk_report :: "json \<Rightarrow> nat \<times> json \<Rightarrow> msg" where
  "chunk_report pl ic = set_type ''chunk'' (progress_msg (fst ic) (chunk_filename (snd ic)) pl)"

definition reported :: "json \<Rightarrow> nat \<Rightarrow> json list \<Rightarrow> msg list" where
  "reported pl num cs =
     map (chunk_report pl) (filter (\<lambda>ic. truthy (chunk_oql (snd ic))) (enumerate num cs))"

definition is_chunk :: "msg \<Rightarrow> bool" where
  "is_chunk m = (msg_type m = Some (JStr ''chunk''))"

definition is_progress :: "msg \<Rightarrow> bool" where
  "is_progress m =
     (msg_type m = Some (JStr ''status'') \<or> msg_type m = Some (JStr ''run_query'') \<or>
      msg_type m = Some (JStr ''chunk''))"


fun cached_chunk :: "(string \<Rightarrow> string option) \<Rightarrow> json \<Rightarrow> bool" where
  "cached_chunk fs (JObj kvs) =
     (truthy (chunk_oql (JObj kvs)) \<longrightarrow>
        (case map_of kvs ''filename'' of
           Some (JStr name) \<Rightarrow> fs (''overpass/'' @ name) \<noteq> None
         | _ \<Rightarrow> False))"
| "cached_chunk fs _ = False"

section \<open>Example states\<close>

text \<open>A world in which nothing has happened yet, and four upstream services: one with a
  free slot, one that asks for a wait of five seconds, one whose status call fails, and
  one whose fetch fails.\<close>

definition idle_world :: world where
  "idle_world =
     \<lparr>task_queue = [], chans = (\<lambda>q. []), next_chan = 0, files = (\<lambda>f. None), mails = [],
      sleeps = [], status_calls = 0, fetches = [], space_checks = 0\<rparr>"

definition up_free :: upstream where
  "up_free = \<lparr>get_status = (\<lambda>n. Slots []), run_query = (\<lambda>n oql. Inr ''<osm/>'')\<rparr>"

definition up_busy :: upstream where
  "up_busy = \<lparr>get_status = (\<lambda>n. Slots [5, 9]), run_query = (\<lambda>n oql. Inr ''<osm/>'')\<rparr>"

definition up_down :: upstream where
  "up_down =
     \<lparr>get_status = (\<lambda>n. OverpassError ''http://overpass/api/status'' ''502 Bad Gateway''),
      run_query = (\<lambda>n oql. Inr ''<osm/>'')\<rparr>"

definition up_fault :: upstream where
  "up_fault = \<lparr>get_status = (\<lambda>n. Slots []), run_query = (\<lambda>n oql. Inl (Fault ''connection reset''))\<rparr>"

text \<open>Two chunks with a query, one without, a job of the first two, and a client that
  acknowledges whatever it is sent.\<close>

definition chunk_a :: json where
  "chunk_a = JObj [(''oql'', JStr ''node(1);out;''), (''filename'', JStr ''1_a.xml'')]"

definition chunk_b :: json where
  "chunk_b = JObj [(''oql'', JStr ''node(2);out;''), (''filename'', JStr ''1_b.xml'')]"

definition chunk_no_query :: json where
  "chunk_no_query = JObj [(''filename'', JStr ''1_c.xml'')]"

definition job_ab :: job where
  "job_ab =
     \<lparr>place = JObj [(''area'', JNum 2)], address = (''127.0.0.1'', 40000),
      chunks = JArr [chunk_a, chunk_b], queue = 0\<rparr>"

definition patient_client :: conn where
  "patient_client =
     \<lparr>sent = [], inbox = [''ack'', ''ack'', ''ack'', ''ack'', ''ack'', ''ack''], closed = False,
      hangup_after = None\<rparr>"

text \<open>A reading of strings as numbers that accepts no string.\<close>

definition no_float :: "string \<Rightarrow> real option" where
  "no_float s = None"

text \<open>A second job, of the same area as the first.\<close>

definition job_cd :: job where
  "job_cd =
     \<lparr>place = JObj [(''area'', JNum 2)], address = (''127.0.0.1'', 40001),
      chunks = JArr [], queue = 1\<rparr>"




text \<open>A job of one chunk with a query and one without.\<close>

definition job_a_noq :: job where
  "job_a_noq =
     \<lparr>place = JObj [(''area'', JNum 2)], address = (''127.0.0.1'', 40000),
      chunks = JArr [chunk_a, chunk_no_query], queue = 0\<rparr>"

text \<open>A world in which the files of both chunks of the example job exist.\<close>

definition cached_world :: world where
  "cached_world =
     idle_world
       \<lparr>files := [''overpass/1_a.xml'' \<mapsto> ''<osm a/>'', ''overpass/1_b.xml'' \<mapsto> ''<osm b/>'']\<rparr>"

text \<open>A world with two jobs waiting, the smaller one first.\<close>

definition two_jobs_world :: world where
  "two_jobs_world = idle_world\<lparr>next_chan := 2, task_queue := [(2, job_ab), (10, job_cd)]\<rparr>"

section \<open>The capacity check\<close>

text \<open>
  Claim C10. When the status call succeeds, \<open>wait_for_slot\<close> answers that the fetch may
  go on and alerts nobody. If the list of slots is empty or its first entry is at most
  zero, no queue is changed and nothing is slept; if the first entry is positive, the
  only change to the queues is one status message with that entry on the job's queue,
  and there is exactly one sleep, of that length.
\<close>

theorem wait_for_slot_slots:
  assumes "get_status up (status_calls w) = Slots slots"
  shows "fst (wait_for_slot up q w) \<and>
         mails (snd (wait_for_slot up q w)) = mails w \<and>
         (slots = [] \<or> hd slots \<le> 0 \<longrightarrow>
            chans (snd (wait_for_slot up q w)) = chans w \<and>
            sleeps (snd (wait_for_slot up q w)) = sleeps w) \<and>
         (slots \<noteq> [] \<and> 0 < hd slots \<longrightarrow>
            chans (snd (wait_for_slot up q w)) = (chans w)(q := chans w q @ [Some (status_msg (hd slots))]) \<and>
            sleeps (snd (wait_for_slot up q w)) = sleeps w @ [hd slots])"
  using assms
  by (cases slots) (auto simp: wait_for_slot_def Let_def chan_put_def sleep_def)

theorem wait_for_slot_slots_witness:
  "fst (wait_for_slot up_free 0 idle_world) \<and>
   chans (snd (wait_for_slot up_free 0 idle_world)) 0 = [] \<and>
   sleeps (snd (wait_for_slot up_free 0 idle_world)) = [] \<and>
   fst (wait_for_slot up_busy 0 idle_world) \<and>
   chans (snd (wait_for_slot up_busy 0 idle_world)) 0 = [Some (status_msg 5)] \<and>
   sleeps (snd (wait_for_slot up_busy 0 idle_world)) = [5]"
proof -
  have a: "get_status up_free (status_calls idle_world) = Slots []"
    by (simp add: up_free_def)
  have b: "get_status up_busy (status_calls idle_world) = Slots [5, 9]"
    by (simp add: up_busy_def)
  show ?thesis
    using wait_for_slot_slots [OF a, of 0] wait_for_slot_slots [OF b, of 0]
    by (simp add: idle_world_def)
qed




section \<open>A failed capacity check\<close>

text \<open>
  Claim C1, at a job of two chunks, neither in the cache, with the status call failing.
  \<open>process_queue\<close> returns, having sent one alert and put one error message on the job's
  queue; the second chunk is not looked at and nothing is fetched or written. No sentinel
  follows the error message: the queue holds the error message alone. The handler of that
  connection forwards the error message and then waits on the queue for ever, with the
  socket open.
\<close>

theorem outage_leaves_no_sentinel:
  "process_queue up_down (idle_world\<lparr>task_queue := [(2, job_ab)]\<rparr>) =
     (Returned,
      idle_world
        \<lparr>chans := (\<lambda>q. [])(0 := [Some error_msg]),
         mails := [(''Overpass API unavailable'',
                    ''URL: http://overpass/api/status'' @ nl @ nl @ ''response:'' @ nl @ ''502 Bad Gateway'')],
         status_calls := 1, space_checks := 1\<rparr>) \<and>
   relay_and_close [Some error_msg] patient_client =
     (Blocked, patient_client\<lparr>sent := [error_msg], inbox := [''ack'', ''ack'', ''ack'', ''ack'', ''ack'']\<rparr>)"
  by (simp add: process_queue_def heappop_def process_item_def job_ab_def chunk_a_def chunk_b_def
      process_chunk_def fetch_chunk_def wait_for_slot_def check_free_space_def Let_def
      chan_put_def send_mail_def up_down_def idle_world_def progress_msg_def
      relay_and_close_def send_msg_def netstring_write_def patient_client_def error_msg_def
      msg_type_def)

section \<open>Requests that lack a key\<close>

text \<open>
  Claim C9. A decoded request object that is not a ping and has no \<open>place\<close> key, or
  whose place is an object with no \<open>area\<close> key, or that has no \<open>chunks\<close> key, makes the
  handler raise before \<open>task_queue.put\<close> and before any write: the task queue and the send
  queues are as they were, and the connection has been sent nothing (it is unchanged).
\<close>

theorem incomplete_request_raises:
  assumes "map_of kvs ''type'' \<noteq> Some (JStr ''ping'')"
    and "map_of kvs ''place'' = None \<or>
         (\<exists>pkvs. map_of kvs ''place'' = Some (JObj pkvs) \<and> map_of pkvs ''area'' = None) \<or>
         map_of kvs ''chunks'' = None"
  shows "\<exists>e w'. handle pf addr (Some (JObj kvs)) arriving w c = (Raised e, w', c) \<and>
                task_queue w' = task_queue w \<and> chans w' = chans w"
  using assms
  by (auto simp: handle_def new_place_request_def parse_area_def Let_def
      split: option.splits sum.splits exn.splits)

theorem incomplete_request_raises_witness:
  "(\<exists>e w'. handle no_float (''127.0.0.1'', 40000)
       (Some (JObj [(''place'', JObj [(''area'', JNum 2)])])) [] idle_world patient_client =
       (Raised e, w', patient_client) \<and> task_queue w' = task_queue idle_world \<and>
       chans w' = chans idle_world) \<and>
   (\<exists>e w'. handle no_float (''127.0.0.1'', 40000)
       (Some (JObj [(''place'', JObj []), (''chunks'', JArr [])])) [] idle_world patient_client =
       (Raised e, w', patient_client) \<and> task_queue w' = task_queue idle_world \<and>
       chans w' = chans idle_world) \<and>
   (\<exists>e w'. handle no_float (''127.0.0.1'', 40000)
       (Some (JObj [(''chunks'', JArr [])])) [] idle_world patient_client =
       (Raised e, w', patient_client) \<and> task_queue w' = task_queue idle_world \<and>
       chans w' = chans idle_world)"
proof -
  have a: "map_of [(''place'', JObj [(''area'', JNum 2)])] ''type'' \<noteq> Some (JStr ''ping'')"
    and b: "map_of [(''place'', JObj []), (''chunks'', JArr [])] ''type'' \<noteq> Some (JStr ''ping'')"
    and c: "map_of [(''chunks'', JArr [])] ''type'' \<noteq> Some (JStr ''ping'')"
    by simp_all
  have a': "map_of [(''place'', JObj [(''area'', JNum 2)])] ''place'' = None \<or>
         (\<exists>pkvs. map_of [(''place'', JObj [(''area'', JNum 2)])] ''place'' = Some (JObj pkvs) \<and> map_of pkvs ''area'' = None) \<or>
         map_of [(''place'', JObj [(''area'', JNum 2)])] ''chunks'' = None"
    by simp
  have b': "map_of [(''place'', JObj []), (''chunks'', JArr [])] ''place'' = None \<or>
         (\<exists>pkvs. map_of [(''place'', JObj []), (''chunks'', JArr [])] ''place'' = Some (JObj pkvs) \<and> map_of pkvs ''area'' = None) \<or>
         map_of [(''place'', JObj []), (''chunks'', JArr [])] ''chunks'' = None"
    by simp
  have c': "map_of [(''chunks'', JArr [])] ''place'' = None \<or>
         (\<exists>pkvs. map_of [(''chunks'', JArr [])] ''place'' = Some (JObj pkvs) \<and> map_of pkvs ''area'' = None) \<or>
         map_of [(''chunks'', JArr [])] ''chunks'' = None"
    by simp
  show ?thesis
    using incomplete_request_raises [OF a a'] incomplete_request_raises [OF b b']
      incomplete_request_raises [OF c c']
    by blast
qed

section \<open>The heap of the task queue\<close>











section \<open>The order of the queue\<close>






text \<open>Two jobs of different area, put in either order, come out smallest first.\<close>

lemma two_jobs_either_order:
  "heappush (snd (heappush [] (10, job_ab))) (2, job_cd) = (None, [(2, job_cd), (10, job_ab)])"
  "heappush (snd (heappush [] (2, job_cd))) (10, job_ab) = (None, [(2, job_cd), (10, job_ab)])"
  "heappop [(2, job_cd), (10, job_ab)] = Inr ((2, job_cd), [(10, job_ab)])"
  by (simp_all add: heappush_def heappop_def siftup_def siftup_loop.simps siftdown_def
      siftdown_loop.simps entry_lt_def)

section \<open>The priority of a request\<close>





section \<open>Acknowledgments\<close>










section \<open>What a job puts on its queue\<close>

lemma msg_type_set_type: "msg_type (set_type t m) = Some (JStr t)"
  by (simp add: msg_type_def set_type_def update_conv')

lemma msg_type_status: "msg_type (status_msg secs) = Some (JStr ''status'')"
  by (simp add: msg_type_def status_msg_def)

lemma wait_for_slot_emits:
  assumes "wait_for_slot up q w = (True, w')"
  shows "\<exists>new. chans w' = (chans w)(q := chans w q @ map Some new) \<and>
           (\<forall>m\<in>set new. msg_type m = Some (JStr ''status''))"
proof (cases "get_status up (status_calls w)")
  case (Slots slots)
  show ?thesis
  proof (cases "slots = [] \<or> hd slots \<le> 0")
    case True
    then have "chans w' = (chans w)(q := chans w q @ map Some [])"
      using assms Slots by (cases slots) (auto simp: wait_for_slot_def Let_def)
    then show ?thesis by (intro exI [where x = "[]"]) simp
  next
    case False
    then have "chans w' = (chans w)(q := chans w q @ map Some [status_msg (hd slots)])"
      using assms Slots
      by (cases slots) (auto simp: wait_for_slot_def Let_def chan_put_def sleep_def)
    then show ?thesis
      by (intro exI [where x = "[status_msg (hd slots)]"]) (simp add: msg_type_status)
  qed
next
  case (OverpassError u t)
  then show ?thesis using assms by (simp add: wait_for_slot_def Let_def)
next
  case Timeout
  then show ?thesis using assms by (simp add: wait_for_slot_def Let_def)
qed

lemma fetch_chunk_emits:
  assumes "fetch_chunk up q m oql filename w = (f, w')" and "f \<noteq> Return"
  shows "\<exists>new. chans w' = (chans w)(q := chans w q @ map Some new) \<and>
           (\<forall>x\<in>set new. is_progress x) \<and>
           filter is_chunk new = (if f = Next then [set_type ''chunk'' m] else [])"
proof -
  obtain ok w2 where ws: "wait_for_slot up q (check_free_space w) = (ok, w2)"
    by (cases "wait_for_slot up q (check_free_space w)")
  have ok: "ok" using assms ws by (cases ok) (auto simp: fetch_chunk_def)
  obtain pre where pre: "chans w2 = (chans w)(q := chans w q @ map Some pre)"
      "\<forall>m\<in>set pre. msg_type m = Some (JStr ''status'')"
    using wait_for_slot_emits [OF ws [unfolded ok [THEN eqTrueI]]]
    by (auto simp: check_free_space_def)
  show ?thesis
  proof (cases "run_query up (length (fetches w2)) oql")
    case (Inl e)
    then have "chans w' = (chans w)(q := chans w q @ map Some (pre @ [set_type ''run_query'' m]))" "f = Raise e"
      using assms ws ok pre(1)
      by (auto simp: fetch_chunk_def Let_def to_client_def chan_put_def)
    moreover have "\<forall>x\<in>set (pre @ [set_type ''run_query'' m]). is_progress x"
      using pre(2) by (auto simp: is_progress_def msg_type_set_type)
    moreover have "filter is_chunk (pre @ [set_type ''run_query'' m]) = []"
      using pre(2) by (auto simp: is_chunk_def filter_empty_conv msg_type_set_type)
    ultimately show ?thesis
      by (intro exI [where x = "pre @ [set_type ''run_query'' m]"]) simp
  next
    case (Inr content)
    let ?new = "pre @ [set_type ''run_query'' m, set_type ''chunk'' m]"
    have "chans w' = (chans w)(q := chans w q @ map Some ?new)" "f = Next"
      using assms ws ok pre(1) Inr
      by (auto simp: fetch_chunk_def Let_def to_client_def chan_put_def check_free_space_def)
    moreover have "\<forall>x\<in>set ?new. is_progress x"
      using pre(2) by (auto simp: is_progress_def msg_type_set_type)
    moreover have "filter is_chunk pre = []"
      using pre(2) by (auto simp: is_chunk_def filter_empty_conv msg_type_set_type)
    then have "filter is_chunk ?new = [set_type ''chunk'' m]"
      by (simp add: is_chunk_def msg_type_set_type)
    ultimately show ?thesis
      by (intro exI [where x = ?new]) simp
  qed
qed

lemma reported_Cons:
  "reported pl num (c # cs) =
     (if truthy (chunk_oql c) then [chunk_report pl (num, c)] else []) @ reported pl (Suc num) cs"
  by (simp add: reported_def)

lemma process_chunk_emits:
  assumes "process_chunk up q pl num c w = (f, w')" and "f \<noteq> Return"
  shows "\<exists>new. chans w' = (chans w)(q := chans w q @ map Some new) \<and>
           (\<forall>x\<in>set new. is_progress x) \<and>
           (f = Next \<longrightarrow> filter is_chunk new = reported pl num [c])"
proof -
  have none: "w' = w \<Longrightarrow> f = Next \<longrightarrow> \<not> truthy (chunk_oql c) \<Longrightarrow> ?thesis"
    by (intro exI [where x = "[]"]) (simp add: reported_Cons reported_def)
  show ?thesis
  proof (cases "dict_get c ''oql''")
    case (Inl e)
    then show ?thesis using assms by (intro none) (auto simp: process_chunk_def)
  next
    case (Inr oql)
    then have oql: "chunk_oql c = oql" by (simp add: chunk_oql_def)
    show ?thesis
    proof (cases "truthy oql")
      case False
      then show ?thesis using assms Inr oql by (intro none) (auto simp: process_chunk_def)
    next
      case True
      show ?thesis
      proof (cases "subscript c ''filename''")
        case (Inl e)
        then show ?thesis using assms Inr True by (intro none) (auto simp: process_chunk_def)
      next
        case fn: (Inr v)
        show ?thesis
        proof (cases "\<exists>name. v = JStr name")
          case False
          then have "f = Raise TypeError" "w' = w"
            using assms Inr True fn by (cases v; auto simp: process_chunk_def)+
          then show ?thesis by (intro none) auto
        next
          case True
          then obtain name where v: "v = JStr name" by auto
          let ?m = "progress_msg num (JStr name) pl"
          have rep: "reported pl num [c] = [set_type ''chunk'' ?m]"
            using oql \<open>truthy oql\<close> fn v
            by (simp add: reported_Cons reported_def chunk_report_def chunk_filename_def)
          show ?thesis
          proof (cases "files w (''overpass/'' @ name) = None")
            case True
            then have "fetch_chunk up q ?m oql (''overpass/'' @ name) w = (f, w')"
              using assms Inr \<open>truthy oql\<close> fn v by (simp add: process_chunk_def Let_def)
            from fetch_chunk_emits [OF this assms(2)] show ?thesis
              using rep by auto
          next
            case False
            then have "f = Next" "w' = to_client q ''chunk'' ?m w"
              using assms Inr \<open>truthy oql\<close> fn v by (auto simp: process_chunk_def Let_def)
            then have "chans w' = (chans w)(q := chans w q @ map Some [set_type ''chunk'' ?m])"
              by (simp add: to_client_def chan_put_def)
            then show ?thesis
              using rep \<open>f = Next\<close>
              by (intro exI [where x = "[set_type ''chunk'' ?m]"]) (simp add: is_progress_def is_chunk_def msg_type_set_type)
          qed
        qed
      qed
    qed
  qed
qed

lemma chunk_loop_emits:
  assumes "chunk_loop up q pl num cs w = (f, w')" and "f \<noteq> Return"
  shows "\<exists>new. chans w' = (chans w)(q := chans w q @ map Some new) \<and>
           (\<forall>x\<in>set new. is_progress x) \<and>
           (f = Next \<longrightarrow> filter is_chunk new = reported pl num cs)"
  using assms
proof (induction cs arbitrary: num w)
  case Nil
  then show ?case by (intro exI [where x = "[]"]) (simp add: reported_def)
next
  case (Cons c cs)
  obtain f1 w1 where p: "process_chunk up q pl num c w = (f1, w1)"
    by (cases "process_chunk up q pl num c w")
  have f1: "f1 \<noteq> Return" using Cons.prems p by (cases f1) auto
  obtain new1 where new1: "chans w1 = (chans w)(q := chans w q @ map Some new1)"
      "\<forall>x\<in>set new1. is_progress x" "f1 = Next \<longrightarrow> filter is_chunk new1 = reported pl num [c]"
    using process_chunk_emits [OF p f1] by blast
  show ?case
  proof (cases f1)
    case Next
    then have run: "chunk_loop up q pl (Suc num) cs w1 = (f, w')"
      using Cons.prems p by simp
    obtain new2 where new2: "chans w' = (chans w1)(q := chans w1 q @ map Some new2)"
        "\<forall>x\<in>set new2. is_progress x" "f = Next \<longrightarrow> filter is_chunk new2 = reported pl (Suc num) cs"
      using Cons.IH [OF run Cons.prems(2)] by blast
    have "chans w' = (chans w)(q := chans w q @ map Some (new1 @ new2))"
      using new1(1) new2(1) by simp
    moreover have "\<forall>x\<in>set (new1 @ new2). is_progress x"
      using new1(2) new2(2) by auto
    moreover have "f = Next \<longrightarrow> filter is_chunk (new1 @ new2) = reported pl num (c # cs)"
      using new1(3) new2(3) Next by (simp add: reported_Cons reported_def)
    ultimately show ?thesis
      by (intro exI [where x = "new1 @ new2"]) simp
  next
    case Return
    then show ?thesis using f1 by simp
  next
    case (Raise e)
    then have "f = Raise e" "w' = w1" using Cons.prems p by auto
    then show ?thesis
      using new1 by (intro exI [where x = new1]) simp
  qed
qed











section \<open>Chunks that are in the cache\<close>

lemma reported_types: "\<forall>m\<in>set (reported pl num cs). msg_type m = Some (JStr ''chunk'')"
  by (auto simp: reported_def chunk_report_def msg_type_set_type)

lemma reported_Nil: "reported pl num [] = []"
  by (simp add: reported_def)

lemma process_chunk_cached:
  assumes "cached_chunk (files w) c"
  shows "process_chunk up q pl num c w =
           (Next, w\<lparr>chans := (chans w)(q := chans w q @ map Some (reported pl num [c]))\<rparr>)"
proof -
  obtain kvs where c: "c = JObj kvs" using assms by (cases c) auto
  show ?thesis
  proof (cases "truthy (chunk_oql c)")
    case False
    then show ?thesis
      by (auto simp: c process_chunk_def chunk_oql_def reported_def split: option.splits)
  next
    case True
    then obtain name where name: "map_of kvs ''filename'' = Some (JStr name)"
        "files w (''overpass/'' @ name) \<noteq> None"
      using assms c by (auto split: option.splits json.splits)
    obtain oql where oql: "dict_get c ''oql'' = Inr oql" "truthy oql"
      using True by (auto simp: c chunk_oql_def split: option.splits)
    have "reported pl num [c] = [set_type ''chunk'' (progress_msg num (JStr name) pl)]"
      using True name by (simp add: reported_def chunk_report_def chunk_filename_def c)
    then show ?thesis
      using oql name
      by (auto simp: c process_chunk_def Let_def to_client_def chan_put_def simp del: dict_get.simps)
  qed
qed

lemma chunk_loop_cached:
  assumes "\<forall>c\<in>set cs. cached_chunk (files w) c"
  shows "chunk_loop up q pl num cs w =
           (Next, w\<lparr>chans := (chans w)(q := chans w q @ map Some (reported pl num cs))\<rparr>)"
  using assms
proof (induction cs arbitrary: num w)
  case Nil
  show ?case by (simp add: reported_def)
next
  case (Cons c cs)
  let ?w1 = "w\<lparr>chans := (chans w)(q := chans w q @ map Some (reported pl num [c]))\<rparr>"
  have step: "process_chunk up q pl num c w = (Next, ?w1)"
    using process_chunk_cached [of w c] Cons.prems by simp
  have "\<forall>c\<in>set cs. cached_chunk (files ?w1) c" using Cons.prems by simp
  from Cons.IH [OF this, of "Suc num"]
  have rest: "chunk_loop up q pl (Suc num) cs ?w1 =
      (Next, ?w1\<lparr>chans := (chans ?w1)(q := chans ?w1 q @ map Some (reported pl (Suc num) cs))\<rparr>)" .
  have split: "reported pl num (c # cs) = reported pl num [c] @ reported pl (Suc num) cs"
    by (simp add: reported_Cons [of pl num c cs] reported_Cons [of pl num c "[]"] reported_Nil)
  have eq: "?w1\<lparr>chans := (chans ?w1)(q := chans ?w1 q @ map Some (reported pl (Suc num) cs))\<rparr> =
        w\<lparr>chans := (chans w)(q := chans w q @ map Some (reported pl num (c # cs)))\<rparr>"
    by (simp add: split)
  have first: "chunk_loop up q pl num (c # cs) w = chunk_loop up q pl (Suc num) cs ?w1"
    by (simp add: step)
  show ?case
    by (simp only: first rest eq)
qed

lemma fetch_chunk_keeps_files:
  assumes "files w f = Some b" and "files w filename = None"
  shows "files (snd (fetch_chunk up q m oql filename w)) f = Some b"
proof -
  obtain ok w2 where ws: "wait_for_slot up q (check_free_space w) = (ok, w2)"
    by (cases "wait_for_slot up q (check_free_space w)")
  have "files w2 = files (check_free_space w)"
    using wait_for_slot_frame(2) [of up q "check_free_space w"] ws by simp
  then have w2: "files w2 = files w" by (simp add: check_free_space_def)
  have "f \<noteq> filename" using assms by auto
  then show ?thesis
    unfolding fetch_chunk_def ws
    using w2 assms(1)
    by (cases ok) (auto simp: Let_def to_client_def chan_put_def check_free_space_def split: sum.splits)
qed

lemma process_chunk_keeps_files:
  assumes "files w f = Some b"
  shows "files (snd (process_chunk up q pl num c w)) f = Some b"
  using assms fetch_chunk_keeps_files [OF assms]
  by (auto simp: process_chunk_def Let_def to_client_def chan_put_def split: sum.splits json.splits)

lemma chunk_loop_keeps_files:
  assumes "files w f = Some b"
  shows "files (snd (chunk_loop up q pl num cs w)) f = Some b"
  using assms
proof (induction cs arbitrary: num w)
  case Nil
  then show ?case by simp
next
  case (Cons c cs)
  obtain f1 w1 where p: "process_chunk up q pl num c w = (f1, w1)"
    by (cases "process_chunk up q pl num c w")
  have "files w1 f = Some b"
    using process_chunk_keeps_files [OF Cons.prems, of up q pl num c] p by simp
  then show ?case
    using Cons.IH [of w1 "Suc num"] p by (cases f1) simp_all
qed

lemma process_item_keeps_files:
  assumes "files w f = Some b"
  shows "files (snd (process_item up item w)) f = Some b"
proof (cases "iter_items (chunks item)")
  case (Inl e)
  then show ?thesis using assms by (simp add: process_item_def)
next
  case (Inr cs)
  obtain f1 w1 where p: "chunk_loop up (queue item) (place item) 0 cs w = (f1, w1)"
    by (cases "chunk_loop up (queue item) (place item) 0 cs w")
  have "files w1 f = Some b"
    using chunk_loop_keeps_files [OF assms, of up "queue item" "place item" 0 cs] p by simp
  then show ?thesis
    by (cases f1) (simp_all add: process_item_def Inr p chan_put_def)
qed

text \<open>
  Claim C7. A chunk whose cache file exists is reported and nothing else: the world after
  it differs from the world before only by the \<open>chunk\<close> message on the job's queue, so the
  status is not asked, nothing is fetched and no file is written. A job all of whose
  chunks are cached returns with the world changed only by its \<open>chunk\<close> messages and the
  sentinel on its queue: every message is of type \<open>chunk\<close>, none of type \<open>run_query\<close>, and
  the files are the same. And whatever a job does, a file that exists keeps its content.
\<close>

theorem cached_chunks_are_not_fetched:
  "(cached_chunk (files w) c \<longrightarrow>
      process_chunk up q pl num c w =
        (Next, w\<lparr>chans := (chans w)(q := chans w q @ map Some (reported pl num [c]))\<rparr>)) \<and>
   (chunks item = JArr cs \<and> (\<forall>c\<in>set cs. cached_chunk (files w) c) \<longrightarrow>
      process_item up item w =
        (Returned,
         w\<lparr>chans := (chans w)
              (queue item := chans w (queue item) @ map Some (reported (place item) 0 cs) @ [None])\<rparr>)) \<and>
   (\<forall>m\<in>set (reported pl num cs). msg_type m = Some (JStr ''chunk'')) \<and>
   (files w f = Some b \<longrightarrow> files (snd (process_item up item w)) f = Some b)"
proof (intro conjI impI)
  assume "cached_chunk (files w) c"
  then show "process_chunk up q pl num c w =
        (Next, w\<lparr>chans := (chans w)(q := chans w q @ map Some (reported pl num [c]))\<rparr>)"
    by (rule process_chunk_cached)
next
  assume a: "chunks item = JArr cs \<and> (\<forall>c\<in>set cs. cached_chunk (files w) c)"
  then have "chunk_loop up (queue item) (place item) 0 cs w =
      (Next, w\<lparr>chans := (chans w)(queue item := chans w (queue item) @ map Some (reported (place item) 0 cs))\<rparr>)"
    using chunk_loop_cached [of cs w] by simp
  then show "process_item up item w =
        (Returned,
         w\<lparr>chans := (chans w)
              (queue item := chans w (queue item) @ map Some (reported (place item) 0 cs) @ [None])\<rparr>)"
    using a by (simp add: process_item_def chan_put_def)
next
  show "\<forall>m\<in>set (reported pl num cs). msg_type m = Some (JStr ''chunk'')"
    by (rule reported_types)
next
  assume "files w f = Some b"
  then show "files (snd (process_item up item w)) f = Some b"
    by (rule process_item_keeps_files)
qed

theorem cached_chunks_are_not_fetched_witness:
  "process_chunk up_down 0 (place job_ab) 0 chunk_a cached_world =
     (Next,
      cached_world
        \<lparr>chans := (\<lambda>q. [])
           (0 := [Some (set_type ''chunk'' (progress_msg 0 (JStr ''1_a.xml'') (JObj [(''area'', JNum 2)])))])\<rparr>) \<and>
   process_item up_down job_ab cached_world =
     (Returned,
      cached_world
        \<lparr>chans := (\<lambda>q. [])
           (0 := [Some (set_type ''chunk'' (progress_msg 0 (JStr ''1_a.xml'') (JObj [(''area'', JNum 2)]))),
                  Some (set_type ''chunk'' (progress_msg 1 (JStr ''1_b.xml'') (JObj [(''area'', JNum 2)]))),
                  None])\<rparr>) \<and>
   files (snd (process_item up_free job_a_noq (idle_world\<lparr>files := [''overpass/1_b.xml'' \<mapsto> ''<osm b/>'']\<rparr>)))
     ''overpass/1_b.xml'' = Some ''<osm b/>''"
proof -
  have a: "cached_chunk (files cached_world) chunk_a"
    and b: "chunks job_ab = JArr [chunk_a, chunk_b] \<and>
            (\<forall>c\<in>set [chunk_a, chunk_b]. cached_chunk (files cached_world) c)"
    and c: "files (idle_world\<lparr>files := [''overpass/1_b.xml'' \<mapsto> ''<osm b/>'']\<rparr>) ''overpass/1_b.xml'' =
            Some ''<osm b/>''"
    by (simp_all add: cached_world_def idle_world_def chunk_a_def chunk_b_def job_ab_def chunk_oql_def)
  have r: "reported (place job_ab) 0 [chunk_a] =
        [set_type ''chunk'' (progress_msg 0 (JStr ''1_a.xml'') (JObj [(''area'', JNum 2)]))]"
    "reported (place job_ab) 0 [chunk_a, chunk_b] =
        [set_type ''chunk'' (progress_msg 0 (JStr ''1_a.xml'') (JObj [(''area'', JNum 2)])),
         set_type ''chunk'' (progress_msg 1 (JStr ''1_b.xml'') (JObj [(''area'', JNum 2)]))]"
    by (simp_all add: reported_def chunk_report_def chunk_oql_def chunk_filename_def job_ab_def
        chunk_a_def chunk_b_def)
  have q: "queue job_ab = 0" "chans cached_world = (\<lambda>q. [])"
    by (simp_all add: job_ab_def cached_world_def idle_world_def)
  show ?thesis
    using cached_chunks_are_not_fetched
        [of cached_world chunk_a up_down 0 "place job_ab" 0 job_ab "[chunk_a, chunk_b]"]
      cached_chunks_are_not_fetched
        [of "idle_world\<lparr>files := [''overpass/1_b.xml'' \<mapsto> ''<osm b/>'']\<rparr>" _ up_free _ _ _ job_a_noq _
          "''overpass/1_b.xml''" "''<osm b/>''"]
      a b c
    by (simp add: r q)
qed

section \<open>An exception in a job\<close>

lemma process_item_emits:
  assumes "process_item up item w = (Raised e, w')"
  shows "\<exists>new. chans w' = (chans w)(queue item := chans w (queue item) @ map Some new) \<and>
           (\<forall>m\<in>set new. is_progress m)"
proof (cases "iter_items (chunks item)")
  case (Inl e')
  then have "w' = w" using assms by (simp add: process_item_def)
  then show ?thesis by (intro exI [where x = "[]"]) simp
next
  case (Inr cs)
  obtain f w2 where run: "chunk_loop up (queue item) (place item) 0 cs w = (f, w2)"
    by (cases "chunk_loop up (queue item) (place item) 0 cs w")
  have f: "f = Raise e" "w' = w2"
    using assms Inr run by (cases f; simp add: process_item_def)+
  then have "f \<noteq> Return" by simp
  from chunk_loop_emits [OF run this] show ?thesis
    using f by blast
qed

lemma pop_two: "heappop [(2, job_ab), (10, job_cd)] = Inr ((2, job_ab), [(10, job_cd)])"
  by (simp add: heappop_def siftup_def siftup_loop.simps siftdown_def siftdown_loop.simps)

lemma fault_example:
  "process_item up_fault job_ab (two_jobs_world\<lparr>task_queue := [(10, job_cd)]\<rparr>) =
     (Raised (Fault ''connection reset''),
      idle_world
        \<lparr>next_chan := 2, task_queue := [(10, job_cd)],
         chans := (\<lambda>q. [])
           (0 := [Some (set_type ''run_query'' (progress_msg 0 (JStr ''1_a.xml'') (JObj [(''area'', JNum 2)])))]),
         status_calls := 1, fetches := [JStr ''node(1);out;''], space_checks := 1\<rparr>)"
  by (simp add: process_item_def job_ab_def chunk_a_def chunk_b_def process_chunk_def
      fetch_chunk_def wait_for_slot_def check_free_space_def Let_def chan_put_def to_client_def
      up_fault_def idle_world_def two_jobs_world_def)

text \<open>
  Claim C4, as the code has it. \<open>process_queue_loop\<close> calls \<open>process_queue\<close> with no handler
  around it. When the job taken from the queue raises an exception, the loop ends with
  that exception, in the state the job had reached: the jobs still waiting stay on the
  queue and are never run, the job's own queue has been given progress messages only
  (no error message, no sentinel), and no other queue has been given anything.
\<close>

theorem exception_ends_worker_loop:
  assumes "task_queue w \<noteq> []" and "heappop (task_queue w) = Inr ((area, item), heap)"
    and "process_item up item (w\<lparr>task_queue := heap\<rparr>) = (Raised e, w')"
  shows "process_queue_loop up w = (Raised e, w') \<and> task_queue w' = heap \<and>
         (\<exists>new. chans w' = (chans w)(queue item := chans w (queue item) @ map Some new) \<and>
                (\<forall>m\<in>set new. is_progress m))"
proof -
  have pq: "process_queue up w = (Raised e, w')"
    using assms by (simp add: process_queue_def)
  have loop: "process_queue_loop up w = (Raised e, w')"
    by (subst process_queue_loop.simps) (simp add: pq)
  have "task_queue w' = task_queue (w\<lparr>task_queue := heap\<rparr>)"
    using process_item_task_queue [of up item "w\<lparr>task_queue := heap\<rparr>"] assms(3) by simp
  then have tq: "task_queue w' = heap" by simp
  show ?thesis
    using loop tq process_item_emits [OF assms(3)] by simp
qed

theorem exception_ends_worker_loop_witness:
  "process_queue_loop up_fault two_jobs_world =
     (Raised (Fault ''connection reset''),
      idle_world
        \<lparr>next_chan := 2, task_queue := [(10, job_cd)],
         chans := (\<lambda>q. [])
           (0 := [Some (set_type ''run_query'' (progress_msg 0 (JStr ''1_a.xml'') (JObj [(''area'', JNum 2)])))]),
         status_calls := 1, fetches := [JStr ''node(1);out;''], space_checks := 1\<rparr>)"
proof -
  have a: "task_queue two_jobs_world \<noteq> []"
    and b: "heappop (task_queue two_jobs_world) = Inr ((2, job_ab), [(10, job_cd)])"
    by (simp_all add: two_jobs_world_def pop_two)
  show ?thesis
    using exception_ends_worker_loop [OF a b fault_example] by simp
qed

lemma process_queue_fault:
  "process_queue up_fault two_jobs_world =
     (Raised (Fault ''connection reset''),
      idle_world
        \<lparr>next_chan := 2, task_queue := [(10, job_cd)],
         chans := (\<lambda>q. [])
           (0 := [Some (set_type ''run_query'' (progress_msg 0 (JStr ''1_a.xml'') (JObj [(''area'', JNum 2)])))]),
         status_calls := 1, fetches := [JStr ''node(1);out;''], space_checks := 1\<rparr>)"
proof -
  have "process_queue up_fault two_jobs_world =
          process_item up_fault job_ab (two_jobs_world\<lparr>task_queue := [(10, job_cd)]\<rparr>)"
    by (simp add: process_queue_def two_jobs_world_def pop_two)
  then show ?thesis by (simp only: fault_example)
qed

text \<open>
  Claim C4 as stated fails: with two jobs waiting and a fetch that fails, the worker loop
  ends with the failure of the first job. The second job is still on the task queue and
  its send queue is empty; the first job's queue holds its \<open>run_query\<close> message and nothing
  after it.
\<close>

theorem fetch_fault_stops_the_worker:
  "fst (process_queue_loop up_fault two_jobs_world) = Raised (Fault ''connection reset'') \<and>
   task_queue (snd (process_queue_loop up_fault two_jobs_world)) = [(10, job_cd)] \<and>
   chans (snd (process_queue_loop up_fault two_jobs_world)) 0 =
     [Some (set_type ''run_query'' (progress_msg 0 (JStr ''1_a.xml'') (JObj [(''area'', JNum 2)])))] \<and>
   chans (snd (process_queue_loop up_fault two_jobs_world)) 1 = []"
  by (subst (1 2 3 4) process_queue_loop.simps) (simp add: process_queue_fault)

end
